theory Spec2Isabelle
  imports Main
begin

section \<open>Python string primitives used by \<open>helpers.py\<close>\<close>

text \<open>
  The helpers are Python 2 code: the output of a subprocess is a byte string, so a
  string is a \<open>char list\<close> and the character classes of \<open>re\<close> are the ASCII ones.
\<close>

text \<open>\<open>\s\<close>: space, tab, newline, carriage return, form feed, vertical tab.\<close>

definition is_space :: "char \<Rightarrow> bool" where
  "is_space c \<longleftrightarrow> c \<in> set [CHR '' '', CHR 0x09, CHR 0x0A, CHR 0x0D, CHR 0x0C, CHR 0x0B]"

text \<open>\<open>[0-9]\<close>.\<close>

definition is_digit :: "char \<Rightarrow> bool" where
  "is_digit c \<longleftrightarrow> c \<in> set ''0123456789''"

text \<open>\<open>\w\<close> without the LOCALE and UNICODE flags: \<open>[a-zA-Z0-9_]\<close>.\<close>

definition is_word :: "char \<Rightarrow> bool" where
  "is_word c \<longleftrightarrow>
     c \<in> set ''abcdefghijklmnopqrstuvwxyzABCDEFGHIJKLMNOPQRSTUVWXYZ0123456789_''"

text \<open>\<open>sep.join(parts)\<close>.\<close>

fun join :: "string \<Rightarrow> string list \<Rightarrow> string" where
  "join sep [] = []"
| "join sep [x] = x"
| "join sep (x # y # ys) = x @ sep @ join sep (y # ys)"

text \<open>
  \<open>s.split(d)\<close> for a separator of one character: the pieces between the separators,
  empty pieces kept, so the result is never empty and has one piece more than \<open>s\<close> has
  separators.
\<close>

fun split :: "char \<Rightarrow> string \<Rightarrow> string list" where
  "split d [] = [[]]"
| "split d (c # cs) =
     (if c = d then [] # split d cs
      else (case split d cs of [] \<Rightarrow> [[c]] | p # ps \<Rightarrow> (c # p) # ps))"

section \<open>The fragment of \<open>re\<close> the helpers use\<close>

text \<open>
  A pattern is a sequence of atoms. The source patterns need: a literal, an alternation of
  literals \<open>(?:a|b)\<close>, a greedy repetition \<open>[cls]*\<close> or \<open>[cls]+\<close> of a
  character class (given by its least count), the word boundary \<open>\b\<close>, the anchor
  \<open>^\<close>, and the parentheses of capture group 1.
\<close>

datatype atom =
    Lit string
  | Alt "string list"
  | Rep nat "char \<Rightarrow> bool"
  | WordB
  | Bol
  | Open
  | Close

text \<open>The first alternative that succeeds, in list order.\<close>

fun first_some :: "'a option list \<Rightarrow> 'a option" where
  "first_some [] = None"
| "first_some (None # xs) = first_some xs"
| "first_some (Some x # xs) = Some x"

text \<open>
  \<open>\b\<close> holds between a word character and a non-word character, the outside of the
  subject counting as non-word. \<open>bef\<close> is the text before the position, reversed.
\<close>

definition at_boundary :: "string \<Rightarrow> string \<Rightarrow> bool" where
  "at_boundary bef s \<longleftrightarrow>
     (case bef of [] \<Rightarrow> False | p # _ \<Rightarrow> is_word p) \<noteq> (case s of [] \<Rightarrow> False | n # _ \<Rightarrow> is_word n)"

text \<open>
  The backtracking matcher at one position. \<open>bef\<close> is the subject before the position
  (reversed), \<open>s\<close> the subject from the position on. The result lists, atom by atom, the
  text each atom consumed. A repetition is greedy: it tries the longest run first and gives
  characters back one by one, down to its least count; an alternation tries its branches
  from left to right.
\<close>

fun rmatch :: "atom list \<Rightarrow> string \<Rightarrow> string \<Rightarrow> string list option" where
  "rmatch [] bef s = Some []"
| "rmatch (Lit w # as) bef s =
     (if take (length w) s = w
      then map_option ((#) w) (rmatch as (rev w @ bef) (drop (length w) s))
      else None)"
| "rmatch (Alt ws # as) bef s =
     first_some (map (\<lambda>w. if take (length w) s = w
                            then map_option ((#) w) (rmatch as (rev w @ bef) (drop (length w) s))
                            else None) ws)"
| "rmatch (Rep lo cls # as) bef s =
     first_some (map (\<lambda>k. map_option ((#) (take k s))
                                       (rmatch as (rev (take k s) @ bef) (drop k s)))
                     (rev [lo ..< Suc (length (takeWhile cls s))]))"
| "rmatch (WordB # as) bef s =
     (if at_boundary bef s then map_option ((#) []) (rmatch as bef s) else None)"
| "rmatch (Bol # as) bef s =
     (if bef = [] then map_option ((#) []) (rmatch as bef s) else None)"
| "rmatch (Open # as) bef s = map_option ((#) []) (rmatch as bef s)"
| "rmatch (Close # as) bef s = map_option ((#) []) (rmatch as bef s)"

text \<open>\<open>m.group(1)\<close>: what the atoms between \<open>Open\<close> and \<open>Close\<close> consumed.\<close>

fun in_group :: "atom list \<Rightarrow> string list \<Rightarrow> string" where
  "in_group (Close # as) ps = []"
| "in_group (a # as) (p # ps) = p @ in_group as ps"
| "in_group as ps = []"

fun group1 :: "atom list \<Rightarrow> string list \<Rightarrow> string" where
  "group1 (Open # as) (p # ps) = in_group as ps"
| "group1 (a # as) (p # ps) = group1 as ps"
| "group1 as ps = []"

text \<open>\<open>re.match(pattern, s)\<close>: a match at the start of the subject; its group 1.\<close>

definition re_match :: "atom list \<Rightarrow> string \<Rightarrow> string option" where
  "re_match as s = map_option (group1 as) (rmatch as [] s)"

text \<open>
  \<open>re.search(pattern, s)\<close>: the match at the leftmost position that has one, the end of
  the subject included; its group 1.
\<close>

fun search_from :: "atom list \<Rightarrow> string \<Rightarrow> string \<Rightarrow> string option" where
  "search_from as bef [] = map_option (group1 as) (rmatch as bef [])"
| "search_from as bef (c # cs) =
     (case rmatch as bef (c # cs) of
        Some ps \<Rightarrow> Some (group1 as ps)
      | None \<Rightarrow> search_from as (c # bef) cs)"

definition re_search :: "atom list \<Rightarrow> string \<Rightarrow> string option" where
  "re_search as s = search_from as [] s"

section \<open>\<open>CompilerTarget\<close>\<close>

text \<open>\<open>r'^Target:\s*(\S+)'\<close>\<close>

definition target_re :: "atom list" where
  "target_re = [Bol, Lit ''Target:'', Rep 0 is_space, Open, Rep 1 (\<lambda>c. \<not> is_space c), Close]"

text \<open>
  Lines 154 to 162: the body of \<open>if m:\<close>, applied to \<open>m.group(1)\<close>.
\<close>

definition normalize_target :: "string \<Rightarrow> string" where
  "normalize_target t =
     (let parts = split CHR ''-'' t;
          parts = (if length parts = 3 then [parts ! 0] @ [''pc''] @ drop 1 parts
                   else if length parts = 4
                   then (if parts ! 1 = ''unknown'' then parts[1 := ''pc''] else parts)
                   else parts)
      in join ''-'' parts)"

text \<open>The loop over the output lines: the first line that matches decides.\<close>

fun target_of_lines :: "string list \<Rightarrow> string option" where
  "target_of_lines [] = None"
| "target_of_lines (line # lines) =
     (case re_match target_re line of
        Some t \<Rightarrow> Some (normalize_target t)
      | None \<Rightarrow> target_of_lines lines)"

section \<open>The outside world\<close>

text \<open>The exceptions of the Python code that the model keeps apart.\<close>

datatype py_exn = OSError | ValueError | IndexError | KeyError

text \<open>
  \<open>subprocess.Popen(argv, ...)\<close> followed by \<open>proc.stdout.readlines()\<close>: for an
  argument vector, either the exception raised while the process is started (the
  executable is missing, \<open>env['ENV']\<close> is missing, ...) or the lines of its combined
  output. It is a parameter of the model.
\<close>

type_synonym popen = "string list \<Rightarrow> py_exn + string list"

section \<open>\<open>CompilerVersion\<close>\<close>

text \<open>
  The list \<open>version_formats\<close>: \<open>r'(\b[0-9]+\.[0-9]+\.[0-9]+\b)'\<close> and
  \<open>r'(\b[0-9]+\.[0-9]+\b)'\<close>.
\<close>

definition triple_re :: "atom list" where
  "triple_re =
     [Open, WordB, Rep 1 is_digit, Lit ''.'', Rep 1 is_digit, Lit ''.'', Rep 1 is_digit,
      WordB, Close]"

definition pair_re :: "atom list" where
  "pair_re = [Open, WordB, Rep 1 is_digit, Lit ''.'', Rep 1 is_digit, WordB, Close]"

definition version_formats :: "atom list list" where
  "version_formats = [triple_re, pair_re]"

text \<open>\<open>r'(?:LLVM|clang)\s+version\s+'\<close>, to which each format is appended.\<close>

definition marker_re :: "atom list" where
  "marker_re = [Alt [''LLVM'', ''clang''], Rep 1 is_space, Lit ''version'', Rep 1 is_space]"

text \<open>\<open>r'\([^)]+\)'\<close>\<close>

definition paren_re :: "atom list" where
  "paren_re = [Lit ''('', Rep 1 (\<lambda>c. c \<noteq> CHR '')''), Lit '')'']"

text \<open>
  \<open>re.sub(pattern, '', s)\<close>: the matches are found from left to right, each search
  starting where the last match ended, and are deleted; the text between them is kept.
  The one pattern it is called with needs a parenthesis, so a match is never empty; the
  branch for an empty match (skip one character) only makes the recursion total.
\<close>

function re_sub_empty :: "atom list \<Rightarrow> string \<Rightarrow> string \<Rightarrow> string" where
  "re_sub_empty as bef [] = []"
| "re_sub_empty as bef (c # cs) =
     (case rmatch as bef (c # cs) of
        None \<Rightarrow> c # re_sub_empty as (c # bef) cs
      | Some ps \<Rightarrow>
          (let n = length (concat ps)
           in if n = 0 then c # re_sub_empty as (c # bef) cs
              else re_sub_empty as (rev (take n (c # cs)) @ bef) (drop n (c # cs))))"
  by pat_completeness auto
termination
  by (relation "measure (\<lambda>(as, bef, s). length s)") auto

text \<open>
  \<open>for regex in version_formats: m = re.search(pre + regex, text); if m: return m.group(1)\<close>:
  the first loop of \<open>getverstr\<close> with \<open>pre\<close> the marker, the inner loop of the second
  with no prefix.
\<close>

fun search_formats :: "atom list \<Rightarrow> atom list list \<Rightarrow> string \<Rightarrow> string option" where
  "search_formats pre [] text = None"
| "search_formats pre (regex # formats) text =
     (case re_search (pre @ regex) text of
        Some g \<Rightarrow> Some g
      | None \<Rightarrow> search_formats pre formats text)"

text \<open>\<open>for text in [dump_text, trunc_text, full_text]: ...\<close>\<close>

fun search_texts :: "atom list list \<Rightarrow> string list \<Rightarrow> string option" where
  "search_texts formats [] = None"
| "search_texts formats (text # texts) =
     (case search_formats [] formats text of
        Some g \<Rightarrow> Some g
      | None \<Rightarrow> search_texts formats texts)"

text \<open>
  \<open>getverstr\<close>. The whole body is inside \<open>try: ... except: pass\<close>, so an exception of
  either \<open>Popen\<close> makes it return \<open>None\<close>. The second component lists the argument
  vectors \<open>Popen\<close> was called with, in order.
\<close>

definition getverstr :: "popen \<Rightarrow> string \<Rightarrow> string option \<times> string list list" where
  "getverstr Popen compiler =
     (case Popen [compiler, ''--version''] of
        Inl e \<Rightarrow> (None, [[compiler, ''--version'']])
      | Inr full_lines \<Rightarrow>
          (let full_text = join '' '' full_lines
           in case search_formats marker_re version_formats full_text of
                Some g \<Rightarrow> (Some g, [[compiler, ''--version'']])
              | None \<Rightarrow>
                  (let trunc_text = re_sub_empty paren_re [] full_text
                   in case Popen [compiler, ''-dumpversion''] of
                        Inl e \<Rightarrow> (None, [[compiler, ''--version''], [compiler, ''-dumpversion'']])
                      | Inr dump_lines \<Rightarrow>
                          (let dump_text = join '' '' dump_lines
                           in (search_texts version_formats [dump_text, trunc_text, full_text],
                               [[compiler, ''--version''], [compiler, ''-dumpversion'']])))))"

text \<open>
  \<open>int(s)\<close> on a byte string. Python also accepts a sign and blanks around the digits;
  the model raises there, which is on the safe side: a proof that the model does not
  raise covers the code.
\<close>

definition digit_val :: "char \<Rightarrow> int" where
  "digit_val c = int (of_char c) - 48"

definition digits_value :: "string \<Rightarrow> int" where
  "digits_value s = foldl (\<lambda>a c. 10 * a + digit_val c) 0 s"

definition py_int :: "string \<Rightarrow> py_exn + int" where
  "py_int s =
     (if s \<noteq> [] \<and> list_all is_digit s then Inr (digits_value s) else Inl ValueError)"

text \<open>\<open>map(int, parts)\<close>, stopping at the first exception.\<close>

fun map_int :: "string list \<Rightarrow> py_exn + int list" where
  "map_int [] = Inr []"
| "map_int (p # ps) =
     (case py_int p of
        Inl e \<Rightarrow> Inl e
      | Inr n \<Rightarrow> (case map_int ps of Inl e \<Rightarrow> Inl e | Inr ns \<Rightarrow> Inr (n # ns)))"

text \<open>
  \<open>if ver: return tuple(map(int, ver.split('.'))) else: return None\<close>. This part is
  outside the \<open>try\<close>.
\<close>

definition version_tuple :: "string option \<Rightarrow> py_exn + int list option" where
  "version_tuple ver =
     (case ver of
        None \<Rightarrow> Inr None
      | Some v \<Rightarrow>
          (if v = [] then Inr None
           else (case map_int (split CHR ''.'' v) of
                   Inl e \<Rightarrow> Inl e
                 | Inr ns \<Rightarrow> Inr (Some ns))))"

definition CompilerVersion ::
  "popen \<Rightarrow> string \<Rightarrow> (py_exn + int list option) \<times> string list list" where
  "CompilerVersion Popen compiler =
     (let (ver, spawned) = getverstr Popen compiler in (version_tuple ver, spawned))"

text \<open>
  \<open>CompilerTarget\<close>: \<open>Popen\<close> is inside \<open>try: ... except: return None\<close>; then the loop
  over the lines.
\<close>

definition CompilerTarget :: "popen \<Rightarrow> string \<Rightarrow> string option \<times> string list list" where
  "CompilerTarget Popen compiler =
     (case Popen [compiler, ''-v'', ''-E'', ''-''] of
        Inl e \<Rightarrow> (None, [[compiler, ''-v'', ''-E'', ''-'']])
      | Inr lines \<Rightarrow> (target_of_lines lines, [[compiler, ''-v'', ''-E'', ''-'']]))"

section \<open>\<open>CheckLibWithHeaderExpr\<close>\<close>

text \<open>
  An argument that is either a list or a single value, which
  \<open>if not isinstance(x, list): x = [x]\<close> wraps.
\<close>

datatype arg = Single string | Many "string list"

fun as_list :: "arg \<Rightarrow> string list" where
  "as_list (Many xs) = xs"
| "as_list (Single x) = [x]"

text \<open>What the probe does to the outside, in order.\<close>

datatype event = Message string | RunProg string string | Result string

text \<open>
  The configure context (SCons's \<open>CheckContext\<close>): \<open>context.env['LIBS']\<close>
  (absent when the variable was never set),
  the global \<open>SCons.SConf._ac_build_counter\<close>, and the trace of the calls made.
\<close>

record check_context =
  LIBS :: "string list option"
  ac_build_counter :: nat
  trace :: "event list"

text \<open>
  The capabilities the probe is given: \<open>int(hashlib.md5(src).hexdigest(), 16)\<close>, and
  \<open>context.RunProg(src, suffix)\<close>, which compiles, links and runs the program in the
  context as it is at the call and returns \<open>(err, out)\<close>: \<open>err\<close> is false exactly when
  the program was built and exited with status zero, \<open>out\<close> is what it printed.
\<close>

record sconf =
  md5 :: "string \<Rightarrow> nat"
  run_prog :: "check_context \<Rightarrow> string \<Rightarrow> string \<Rightarrow> bool \<times> string"

text \<open>\<open>s.strip()\<close> and \<open>s.upper()\<close> on byte strings.\<close>

definition strip :: "string \<Rightarrow> string" where
  "strip s = rev (dropWhile is_space (rev (dropWhile is_space s)))"

definition upper_char :: "char \<Rightarrow> char" where
  "upper_char c =
     (if c \<in> set ''abcdefghijklmnopqrstuvwxyz'' then char_of (of_char c - (32::nat)) else c)"

definition upper :: "string \<Rightarrow> string" where
  "upper s = map upper_char s"

text \<open>Lines 319 to 328: the file suffix and the text of the probe program.\<close>

definition probe_suffix :: "string \<Rightarrow> string" where
  "probe_suffix language = ''.'' @ language"

definition probe_src :: "string list \<Rightarrow> string \<Rightarrow> string" where
  "probe_src headers expr =
     (let includes = join [CHR 0x0A]
                       (map (\<lambda>h. ''#include <'' @ h @ ''>'') ([''stdio.h''] @ headers))
      in [CHR 0x0A] @ includes @ [CHR 0x0A, CHR 0x0A]
         @ ''int main() {'' @ [CHR 0x0A]
         @ ''    printf('' @ [CHR 0x22] @ ''%d'' @ [CHR 0x5C] @ ''n'' @ [CHR 0x22]
         @ '', (int)('' @ expr @ ''));'' @ [CHR 0x0A]
         @ ''    return 0;'' @ [CHR 0x0A]
         @ ''}'' @ [CHR 0x0A])"

text \<open>
  Lines 330 to 342: the message, the patch of the global counter with the digest of the
  source, and the call of \<open>RunProg\<close>, which sees the context as it is then.
\<close>

definition run_probe ::
  "sconf \<Rightarrow> check_context \<Rightarrow> string \<Rightarrow> string \<Rightarrow> string \<Rightarrow> string
     \<Rightarrow> (bool \<times> string) \<times> check_context" where
  "run_probe sc ctx name language src suffix =
     (let ctx = ctx\<lparr>trace := trace ctx @
                  [Message (''Checking for '' @ upper language @ '' library '' @ name @ ''... '')]\<rparr>;
          ctx = ctx\<lparr>ac_build_counter := md5 sc src\<rparr>;
          r = run_prog sc ctx src suffix
      in (r, ctx\<lparr>trace := trace ctx @ [RunProg src suffix]\<rparr>))"

text \<open>
  \<open>CheckLibWithHeaderExpr\<close>, with the context passed in and returned. \<open>libs[0]\<close> raises
  IndexError on the empty list, and \<open>context.env['LIBS']\<close>, evaluated for the first
  element of the comprehension, raises KeyError when the variable is absent; both leave
  the context as it was. \<open>env.Append(LIBS=libs)\<close> appends the list to the variable.
\<close>

definition CheckLibWithHeaderExpr ::
  "sconf \<Rightarrow> check_context \<Rightarrow> arg \<Rightarrow> arg \<Rightarrow> string \<Rightarrow> string
     \<Rightarrow> (py_exn + bool) \<times> check_context" where
  "CheckLibWithHeaderExpr sc ctx libs headers language expr =
     (let headers = as_list headers;
          libs = as_list libs
      in case libs of
           [] \<Rightarrow> (Inl IndexError, ctx)
         | name # _ \<Rightarrow>
             (case LIBS ctx of
                None \<Rightarrow> (Inl KeyError, ctx)
              | Some present \<Rightarrow>
                  (let libs = filter (\<lambda>l. \<not> (l \<in> set present)) libs;
                       suffix = probe_suffix language;
                       src = probe_src headers expr;
                       ((err, out), ctx) = run_probe sc ctx name language src suffix
                   in if \<not> err \<and> strip out \<noteq> ''0''
                      then (Inr True,
                            ctx\<lparr>trace := trace ctx @ [Result ''yes''],
                                LIBS := Some (present @ libs)\<rparr>)
                      else (Inr False, ctx\<lparr>trace := trace ctx @ [Result ''no'']\<rparr>))))"

text \<open>\<open>CheckLibWithHeaderUniq\<close>: the probe with the expression \<open>1\<close>.\<close>

definition CheckLibWithHeaderUniq ::
  "sconf \<Rightarrow> check_context \<Rightarrow> arg \<Rightarrow> arg \<Rightarrow> string
     \<Rightarrow> (py_exn + bool) \<times> check_context" where
  "CheckLibWithHeaderUniq sc ctx libs headers language =
     CheckLibWithHeaderExpr sc ctx libs headers language ''1''"

section \<open>What a match is\<close>

text \<open>
  The meaning of a pattern, apart from the order in which the matcher tries things:
  \<open>conforms as bef s ps\<close> holds when the pieces \<open>ps\<close>, one for each atom of \<open>as\<close>, are
  consecutive at the start of \<open>s\<close> and each piece is what its atom admits at its position.
\<close>

fun atom_ok :: "atom \<Rightarrow> string \<Rightarrow> string \<Rightarrow> string \<Rightarrow> bool" where
  "atom_ok (Lit w) bef s p \<longleftrightarrow> p = w"
| "atom_ok (Alt ws) bef s p \<longleftrightarrow> p \<in> set ws"
| "atom_ok (Rep lo cls) bef s p \<longleftrightarrow> lo \<le> length p \<and> list_all cls p"
| "atom_ok WordB bef s p \<longleftrightarrow> p = [] \<and> at_boundary bef s"
| "atom_ok Bol bef s p \<longleftrightarrow> p = [] \<and> bef = []"
| "atom_ok Open bef s p \<longleftrightarrow> p = []"
| "atom_ok Close bef s p \<longleftrightarrow> p = []"

fun conforms :: "atom list \<Rightarrow> string \<Rightarrow> string \<Rightarrow> string list \<Rightarrow> bool" where
  "conforms [] bef s ps \<longleftrightarrow> ps = []"
| "conforms (a # as) bef s [] \<longleftrightarrow> False"
| "conforms (a # as) bef s (p # ps) \<longleftrightarrow>
     take (length p) s = p \<and> atom_ok a bef s p
     \<and> conforms as (rev p @ bef) (drop (length p) s) ps"

text \<open>
  The words of the specification. A dotted version is a dotted pair or a dotted triple of
  non-empty digit strings. It occurs in a text when it stands there between word
  boundaries; it occurs marked when it follows \<open>LLVM\<close> or \<open>clang\<close>, blanks, \<open>version\<close>
  and blanks, and ends at a word boundary.
\<close>

definition digits :: "string \<Rightarrow> bool" where
  "digits p \<longleftrightarrow> p \<noteq> [] \<and> list_all is_digit p"

definition spaces :: "string \<Rightarrow> bool" where
  "spaces w \<longleftrightarrow> w \<noteq> [] \<and> list_all is_space w"

definition dotted :: "string \<Rightarrow> bool" where
  "dotted g \<longleftrightarrow>
     (let parts = split CHR ''.'' g
      in (length parts = 2 \<or> length parts = 3) \<and> list_all digits parts)"

definition dotted_in :: "string \<Rightarrow> string \<Rightarrow> bool" where
  "dotted_in text g \<longleftrightarrow>
     dotted g \<and>
     (\<exists>u v. text = u @ g @ v \<and> (u = [] \<or> \<not> is_word (last u))
            \<and> (v = [] \<or> \<not> is_word (hd v)))"

definition marked_in :: "string \<Rightarrow> string \<Rightarrow> bool" where
  "marked_in text g \<longleftrightarrow>
     dotted g \<and>
     (\<exists>u m w1 w2 v. text = u @ m @ w1 @ ''version'' @ w2 @ g @ v
            \<and> (m = ''LLVM'' \<or> m = ''clang'')
            \<and> spaces w1 \<and> spaces w2
            \<and> (v = [] \<or> \<not> is_word (hd v)))"

section \<open>Example inputs\<close>

text \<open>
  A compiler \<open>cc\<close> whose \<open>-v -E -\<close> output is a banner line, a \<open>Target:\<close> line with the
  triple \<open>t\<close>, and one more line; every other invocation fails to start.
\<close>

definition cc_reports :: "string \<Rightarrow> popen" where
  "cc_reports t argv =
     (if argv = [''cc'', ''-v'', ''-E'', ''-'']
      then Inr [''Using built-in specs.'' @ [CHR 0x0A],
                ''Target: '' @ t @ [CHR 0x0A],
                ''Thread model: posix'' @ [CHR 0x0A]]
      else Inl OSError)"


text \<open>A system on which no process can be started.\<close>

definition no_compiler :: popen where
  "no_compiler argv = Inl OSError"

text \<open>
  A configure run in which every probe program ends with the given status and output, and
  a context that already links \<open>m\<close>.
\<close>

definition prints :: "bool \<Rightarrow> string \<Rightarrow> sconf" where
  "prints err out = \<lparr>md5 = (\<lambda>src. length src), run_prog = (\<lambda>ctx src suffix. (err, out))\<rparr>"

definition links_m :: check_context where
  "links_m = \<lparr>LIBS = Some [''m''], ac_build_counter = 0, trace = []\<rparr>"



section \<open>Splitting and joining\<close>

lemma join_cons_head: "join sep ((c # p) # ps) = c # join sep (p # ps)"
  by (cases ps) simp_all

lemma split_not_Nil: "split d s \<noteq> []"
  by (induction s) (auto split: list.splits)

lemma join_split: "join [d] (split d s) = s"
proof (induction s)
  case Nil
  show ?case by simp
next
  case (Cons c cs)
  show ?case
  proof (cases "c = d")
    case True
    with Cons show ?thesis by (cases "split d cs") (simp_all add: split_not_Nil)
  next
    case False
    with Cons show ?thesis
      by (cases "split d cs") (simp_all add: split_not_Nil join_cons_head)
  qed
qed

section \<open>The target triple\<close>

lemma normalize_target_three:
  "split CHR ''-'' t = [arch, os, abi] \<Longrightarrow> normalize_target t = join ''-'' [arch, ''pc'', os, abi]"
  by (simp add: normalize_target_def)

lemma normalize_target_unknown:
  "split CHR ''-'' t = [arch, ''unknown'', os, abi]
   \<Longrightarrow> normalize_target t = join ''-'' [arch, ''pc'', os, abi]"
  by (simp add: normalize_target_def)

lemma normalize_target_same:
  assumes "length (split CHR ''-'' t) \<noteq> 3"
    and "length (split CHR ''-'' t) = 4 \<longrightarrow> split CHR ''-'' t ! 1 \<noteq> ''unknown''"
  shows "normalize_target t = t"
  using assms join_split [of "CHR ''-''" t] by (auto simp add: normalize_target_def Let_def)

lemma target_of_lines_first:
  assumes "\<forall>l\<in>set pre. re_match target_re l = None"
    and "re_match target_re line = Some t"
  shows "target_of_lines (pre @ line # post) = Some (normalize_target t)"
  using assms by (induction pre) simp_all

lemma banner_no_target: "re_match target_re (''Using built-in specs.'' @ [CHR 0x0A]) = None"
  by (simp add: re_match_def target_re_def)

lemma target_line_3: 
  "re_match target_re (''Target: x86_64-linux-gnu'' @ [CHR 0x0A]) = Some ''x86_64-linux-gnu''"
  by (simp add: re_match_def target_re_def is_space_def)

lemma target_line_unknown: 
  "re_match target_re (''Target: x86_64-unknown-linux-gnu'' @ [CHR 0x0A])
   = Some ''x86_64-unknown-linux-gnu''"
  by (simp add: re_match_def target_re_def is_space_def)

lemma target_line_apple: 
  "re_match target_re (''Target: x86_64-apple-darwin20-macho'' @ [CHR 0x0A])
   = Some ''x86_64-apple-darwin20-macho''"
  by (simp add: re_match_def target_re_def is_space_def)

lemma target_line_2: 
  "re_match target_re (''Target: avr-gcc'' @ [CHR 0x0A]) = Some ''avr-gcc''"
  by (simp add: re_match_def target_re_def is_space_def)

text \<open>
  C1. When the first line of the compiler's output that matches \<open>^Target:\s*(\S+)\<close>
  captures the triple \<open>t\<close>, \<open>CompilerTarget\<close> returns the normalization of \<open>t\<close>, which
  is: for exactly three components \<open>[arch, os, abi]\<close>, the string joined from
  \<open>[arch, pc, os, abi]\<close>; for exactly four components with the second one \<open>unknown\<close>,
  the string with \<open>pc\<close> in its place; for four components with any other vendor, \<open>t\<close>
  itself; and for any other number of components, \<open>t\<close> itself.
\<close>

theorem CompilerTarget_normalizes:
  assumes "Popen [compiler, ''-v'', ''-E'', ''-''] = Inr (pre @ line # post)"
    and "\<forall>l\<in>set pre. re_match target_re l = None"
    and "re_match target_re line = Some t"
  shows "fst (CompilerTarget Popen compiler) = Some (normalize_target t)
       \<and> (\<forall>arch os abi. split CHR ''-'' t = [arch, os, abi]
            \<longrightarrow> normalize_target t = arch @ ''-pc-'' @ os @ ''-'' @ abi)
       \<and> (\<forall>arch os abi. split CHR ''-'' t = [arch, ''unknown'', os, abi]
            \<longrightarrow> normalize_target t = arch @ ''-pc-'' @ os @ ''-'' @ abi)
       \<and> (\<forall>arch vendor os abi.
            split CHR ''-'' t = [arch, vendor, os, abi] \<and> vendor \<noteq> ''unknown''
            \<longrightarrow> normalize_target t = t)
       \<and> (length (split CHR ''-'' t) \<noteq> 3 \<and> length (split CHR ''-'' t) \<noteq> 4
            \<longrightarrow> normalize_target t = t)"
proof -
  have "fst (CompilerTarget Popen compiler) = Some (normalize_target t)"
    using assms by (simp add: CompilerTarget_def target_of_lines_first)
  moreover have "\<forall>arch os abi. split CHR ''-'' t = [arch, os, abi]
      \<longrightarrow> normalize_target t = arch @ ''-pc-'' @ os @ ''-'' @ abi"
    by (simp add: normalize_target_three)
  moreover have "\<forall>arch os abi. split CHR ''-'' t = [arch, ''unknown'', os, abi]
      \<longrightarrow> normalize_target t = arch @ ''-pc-'' @ os @ ''-'' @ abi"
    by (simp add: normalize_target_unknown)
  moreover have "\<forall>arch vendor os abi.
      split CHR ''-'' t = [arch, vendor, os, abi] \<and> vendor \<noteq> ''unknown''
      \<longrightarrow> normalize_target t = t"
    by (auto intro!: normalize_target_same)
  moreover have "length (split CHR ''-'' t) \<noteq> 3 \<and> length (split CHR ''-'' t) \<noteq> 4
      \<longrightarrow> normalize_target t = t"
    by (auto intro!: normalize_target_same)
  ultimately show ?thesis by blast
qed

theorem CompilerTarget_normalizes_witness:
  "fst (CompilerTarget (cc_reports ''x86_64-linux-gnu'') ''cc'') = Some ''x86_64-pc-linux-gnu''
   \<and> fst (CompilerTarget (cc_reports ''x86_64-unknown-linux-gnu'') ''cc'')
       = Some ''x86_64-pc-linux-gnu''
   \<and> fst (CompilerTarget (cc_reports ''x86_64-apple-darwin20-macho'') ''cc'')
       = Some ''x86_64-apple-darwin20-macho''
   \<and> fst (CompilerTarget (cc_reports ''avr-gcc'') ''cc'') = Some ''avr-gcc''"
proof -
  have a: "fst (CompilerTarget (cc_reports ''x86_64-linux-gnu'') ''cc'')
           = Some ''x86_64-pc-linux-gnu''"
    using CompilerTarget_normalizes [of "cc_reports ''x86_64-linux-gnu''" "''cc''"
        "[''Using built-in specs.'' @ [CHR 0x0A]]" "''Target: x86_64-linux-gnu'' @ [CHR 0x0A]"
        "[''Thread model: posix'' @ [CHR 0x0A]]" "''x86_64-linux-gnu''"]
      banner_no_target target_line_3
    by (simp add: cc_reports_def)
  have b: "fst (CompilerTarget (cc_reports ''x86_64-unknown-linux-gnu'') ''cc'')
           = Some ''x86_64-pc-linux-gnu''"
    using CompilerTarget_normalizes [of "cc_reports ''x86_64-unknown-linux-gnu''" "''cc''"
        "[''Using built-in specs.'' @ [CHR 0x0A]]"
        "''Target: x86_64-unknown-linux-gnu'' @ [CHR 0x0A]"
        "[''Thread model: posix'' @ [CHR 0x0A]]" "''x86_64-unknown-linux-gnu''"]
      banner_no_target target_line_unknown
    by (simp add: cc_reports_def)
  have c: "fst (CompilerTarget (cc_reports ''x86_64-apple-darwin20-macho'') ''cc'')
           = Some ''x86_64-apple-darwin20-macho''"
    using CompilerTarget_normalizes [of "cc_reports ''x86_64-apple-darwin20-macho''" "''cc''"
        "[''Using built-in specs.'' @ [CHR 0x0A]]"
        "''Target: x86_64-apple-darwin20-macho'' @ [CHR 0x0A]"
        "[''Thread model: posix'' @ [CHR 0x0A]]" "''x86_64-apple-darwin20-macho''"]
      banner_no_target target_line_apple
    by (simp add: cc_reports_def)
  have d: "fst (CompilerTarget (cc_reports ''avr-gcc'') ''cc'') = Some ''avr-gcc''"
    using CompilerTarget_normalizes [of "cc_reports ''avr-gcc''" "''cc''"
        "[''Using built-in specs.'' @ [CHR 0x0A]]" "''Target: avr-gcc'' @ [CHR 0x0A]"
        "[''Thread model: posix'' @ [CHR 0x0A]]" "''avr-gcc''"]
      banner_no_target target_line_2
    by (simp add: cc_reports_def)
  from a b c d show ?thesis by blast
qed

text \<open>
  C9. On a triple of exactly four components whose second component is not \<open>unknown\<close>,
  the normalization returns its input, so applying it twice gives what applying it once
  gives.
\<close>

theorem normalize_target_idempotent:
  assumes "split CHR ''-'' t = [arch, vendor, os, abi]" and "vendor \<noteq> ''unknown''"
  shows "normalize_target t = t \<and> normalize_target (normalize_target t) = normalize_target t"
proof -
  have "normalize_target t = t"
    using assms by (auto intro!: normalize_target_same)
  then show ?thesis by simp
qed

theorem normalize_target_idempotent_witness:
  "normalize_target ''x86_64-apple-darwin20-macho'' = ''x86_64-apple-darwin20-macho''
   \<and> normalize_target (normalize_target ''x86_64-apple-darwin20-macho'')
       = normalize_target ''x86_64-apple-darwin20-macho''"
  using normalize_target_idempotent [of "''x86_64-apple-darwin20-macho''" "''x86_64''" "''apple''"
      "''darwin20''" "''macho''"]
  by simp

section \<open>Processes started\<close>

lemma snd_CompilerVersion: "snd (CompilerVersion Popen compiler) = snd (getverstr Popen compiler)"
  by (simp add: CompilerVersion_def split: prod.splits)

lemma fst_CompilerVersion:
  "fst (CompilerVersion Popen compiler) = version_tuple (fst (getverstr Popen compiler))"
  by (simp add: CompilerVersion_def split: prod.splits)

text \<open>
  C7. When the process cannot be started, \<open>CompilerVersion\<close> and \<open>CompilerTarget\<close>
  return \<open>None\<close> as a value, not an exception: for \<open>CompilerVersion\<close> when the
  \<open>--version\<close> invocation fails, and more generally when any invocation it makes fails;
  for \<open>CompilerTarget\<close> when its one invocation fails.
\<close>

theorem spawn_failure_not_found:
  "(isl (Popen [compiler, ''--version'']) \<longrightarrow> fst (CompilerVersion Popen compiler) = Inr None)
   \<and> ((\<exists>argv\<in>set (snd (CompilerVersion Popen compiler)). isl (Popen argv))
        \<longrightarrow> fst (CompilerVersion Popen compiler) = Inr None)
   \<and> (isl (Popen [compiler, ''-v'', ''-E'', ''-''])
        \<longrightarrow> fst (CompilerTarget Popen compiler) = None)"
proof -
  have a: "isl (Popen [compiler, ''--version'']) \<longrightarrow> fst (getverstr Popen compiler) = None"
    by (auto simp add: getverstr_def isl_def)
  have b: "(\<exists>argv\<in>set (snd (getverstr Popen compiler)). isl (Popen argv))
        \<longrightarrow> fst (getverstr Popen compiler) = None"
    by (auto simp add: getverstr_def Let_def isl_def split: sum.splits option.splits)
  have c: "isl (Popen [compiler, ''-v'', ''-E'', ''-''])
        \<longrightarrow> fst (CompilerTarget Popen compiler) = None"
    by (auto simp add: CompilerTarget_def isl_def)
  from a b c show ?thesis
    by (simp add: fst_CompilerVersion snd_CompilerVersion version_tuple_def)
qed

theorem spawn_failure_not_found_witness:
  "fst (CompilerVersion no_compiler ''gcc'') = Inr None
   \<and> fst (CompilerTarget no_compiler ''gcc'') = None"
  using spawn_failure_not_found [of no_compiler "''gcc''"]
  by (simp add: no_compiler_def)



section \<open>The feature probe\<close>

lemma strip_minus_one: "strip (''-1'' @ [CHR 0x0A]) = ''-1''"
  by (simp add: strip_def is_space_def)

lemma strip_blank_zero: "strip ('' 0'' @ [CHR 0x0A]) = ''0''"
  by (simp add: strip_def is_space_def)

text \<open>
  C5. When the probe runs (the library list is not empty and the link set is defined),
  \<open>CheckLibWithHeaderExpr\<close> returns true exactly when the probe program ended with status
  zero and its output, stripped of blanks, is not the string \<open>0\<close>; any other output,
  such as \<open>-1\<close>, counts as success.
\<close>

theorem CheckLib_result:
  assumes "as_list libs = name # rest"
    and "LIBS ctx = Some present"
    and "fst (run_probe sc ctx name language (probe_src (as_list headers) expr)
               (probe_suffix language)) = (err, out)"
  shows "fst (CheckLibWithHeaderExpr sc ctx libs headers language expr)
         = Inr (\<not> err \<and> strip out \<noteq> ''0'')"
  using assms
  by (auto simp add: CheckLibWithHeaderExpr_def Let_def split: prod.splits)

theorem CheckLib_result_witness:
  "fst (CheckLibWithHeaderExpr (prints False (''-1'' @ [CHR 0x0A])) links_m
          (Many [''m'', ''sox'']) (Single ''sox.h'') ''c'' ''SOX_LIB_VERSION_CODE'') = Inr True
   \<and> fst (CheckLibWithHeaderExpr (prints False ('' 0'' @ [CHR 0x0A])) links_m
          (Many [''m'', ''sox'']) (Single ''sox.h'') ''c'' ''SOX_LIB_VERSION_CODE'') = Inr False
   \<and> fst (CheckLibWithHeaderExpr (prints True (''-1'' @ [CHR 0x0A])) links_m
          (Many [''m'', ''sox'']) (Single ''sox.h'') ''c'' ''SOX_LIB_VERSION_CODE'') = Inr False"
  using CheckLib_result [of "Many [''m'', ''sox'']" "''m''" "[''sox'']" links_m "[''m'']"
       "prints False (''-1'' @ [CHR 0x0A])" "''c''" "Single ''sox.h''"
       "''SOX_LIB_VERSION_CODE''" False "''-1'' @ [CHR 0x0A]"]
    CheckLib_result [of "Many [''m'', ''sox'']" "''m''" "[''sox'']" links_m "[''m'']"
       "prints False ('' 0'' @ [CHR 0x0A])" "''c''" "Single ''sox.h''"
       "''SOX_LIB_VERSION_CODE''" False "'' 0'' @ [CHR 0x0A]"]
    CheckLib_result [of "Many [''m'', ''sox'']" "''m''" "[''sox'']" links_m "[''m'']"
       "prints True (''-1'' @ [CHR 0x0A])" "''c''" "Single ''sox.h''"
       "''SOX_LIB_VERSION_CODE''" True "''-1'' @ [CHR 0x0A]"]
    strip_minus_one strip_blank_zero
  by (simp add: links_m_def prints_def run_probe_def Let_def)

text \<open>
  C6. When the probe runs, it announces itself, calls \<open>RunProg\<close> once and reports the
  result, whatever the filtering of the libraries left; on a positive result the link set
  becomes the old one followed by the requested libraries that were not in it, and on a
  negative result the link set is the old one.
\<close>

theorem CheckLib_link_set:
  assumes "as_list libs = name # rest"
    and "LIBS ctx = Some present"
    and "CheckLibWithHeaderExpr sc ctx libs headers language expr = (res, ctx')"
  shows "trace ctx' = trace ctx @
           [Message (''Checking for '' @ upper language @ '' library '' @ name @ ''... ''),
            RunProg (probe_src (as_list headers) expr) (probe_suffix language),
            Result (if res = Inr True then ''yes'' else ''no'')]
       \<and> LIBS ctx' = (if res = Inr True
                      then Some (present @ filter (\<lambda>l. l \<notin> set present) (as_list libs))
                      else Some present)
       \<and> (res = Inr True \<or> res = Inr False)"
  using assms
  by (auto simp add: CheckLibWithHeaderExpr_def run_probe_def Let_def
      split: prod.splits if_splits)

theorem CheckLib_link_set_witness:
  "LIBS (snd (CheckLibWithHeaderExpr (prints False ''1'') links_m (Many [''m''])
            (Single ''math.h'') ''c'' ''1'')) = Some [''m'']
   \<and> trace (snd (CheckLibWithHeaderExpr (prints False ''1'') links_m
            (Many [''m'']) (Single ''math.h'') ''c'' ''1''))
       = [Message (''Checking for '' @ upper ''c'' @ '' library m... ''),
          RunProg (probe_src [''math.h''] ''1'') (probe_suffix ''c''),
          Result ''yes'']
   \<and> LIBS (snd (CheckLibWithHeaderExpr (prints False ''1'') links_m
            (Many [''m'', ''sox'']) (Single ''sox.h'') ''c'' ''1'')) = Some [''m'', ''sox'']
   \<and> LIBS (snd (CheckLibWithHeaderExpr (prints True []) links_m
            (Many [''m'', ''sox'']) (Single ''sox.h'') ''c'' ''1'')) = Some [''m'']"
proof -
  have a: "fst (CheckLibWithHeaderExpr (prints False ''1'') links_m (Many [''m''])
            (Single ''math.h'') ''c'' ''1'') = Inr True"
    by (simp add: CheckLibWithHeaderExpr_def run_probe_def prints_def links_m_def Let_def
        strip_def is_space_def)
  have b: "fst (CheckLibWithHeaderExpr (prints False ''1'') links_m
            (Many [''m'', ''sox'']) (Single ''sox.h'') ''c'' ''1'') = Inr True"
    by (simp add: CheckLibWithHeaderExpr_def run_probe_def prints_def links_m_def Let_def
        strip_def is_space_def)
  have c: "fst (CheckLibWithHeaderExpr (prints True []) links_m
            (Many [''m'', ''sox'']) (Single ''sox.h'') ''c'' ''1'') = Inr False"
    by (simp add: CheckLibWithHeaderExpr_def run_probe_def prints_def links_m_def Let_def)
  have l: "LIBS links_m = Some [''m'']" and t: "trace links_m = []"
    by (simp_all add: links_m_def)
  show ?thesis
    using CheckLib_link_set [of "Many [''m'']" "''m''" "[]" links_m "[''m'']"
        "prints False ''1''" "Single ''math.h''" "''c''" "''1''"
        "fst (CheckLibWithHeaderExpr (prints False ''1'') links_m (Many [''m''])
            (Single ''math.h'') ''c'' ''1'')"
        "snd (CheckLibWithHeaderExpr (prints False ''1'') links_m (Many [''m''])
            (Single ''math.h'') ''c'' ''1'')"]
      CheckLib_link_set [of "Many [''m'', ''sox'']" "''m''" "[''sox'']" links_m "[''m'']"
        "prints False ''1''" "Single ''sox.h''" "''c''" "''1''"
        "fst (CheckLibWithHeaderExpr (prints False ''1'') links_m
            (Many [''m'', ''sox'']) (Single ''sox.h'') ''c'' ''1'')"
        "snd (CheckLibWithHeaderExpr (prints False ''1'') links_m
            (Many [''m'', ''sox'']) (Single ''sox.h'') ''c'' ''1'')"]
      CheckLib_link_set [of "Many [''m'', ''sox'']" "''m''" "[''sox'']" links_m "[''m'']"
        "prints True []" "Single ''sox.h''" "''c''" "''1''"
        "fst (CheckLibWithHeaderExpr (prints True []) links_m
            (Many [''m'', ''sox'']) (Single ''sox.h'') ''c'' ''1'')"
        "snd (CheckLibWithHeaderExpr (prints True []) links_m
            (Many [''m'', ''sox'']) (Single ''sox.h'') ''c'' ''1'')"]
    apply (simp add: l t)
    apply (simp add: a b c)
    done
qed

text \<open>
  C10. On the empty library list \<open>CheckLibWithHeaderExpr\<close> raises IndexError and leaves
  the context as it was; so whenever it returns a result, the list was not empty.
\<close>

theorem CheckLib_empty_list_raises:
  "CheckLibWithHeaderExpr sc ctx (Many []) headers language expr = (Inl IndexError, ctx)
   \<and> (\<forall>b. fst (CheckLibWithHeaderExpr sc ctx libs headers language expr) = Inr b
          \<longrightarrow> as_list libs \<noteq> [])"
  by (cases "as_list libs") (simp_all add: CheckLibWithHeaderExpr_def)

theorem CheckLib_empty_list_raises_witness:
  "CheckLibWithHeaderExpr (prints False ''1'') links_m (Many []) (Single ''sox.h'') ''c'' ''1''
     = (Inl IndexError, links_m)
   \<and> as_list (Single ''sox'') \<noteq> []"
  using CheckLib_empty_list_raises [of "prints False ''1''" links_m "Single ''sox.h''" "''c''"
      "''1''" "Single ''sox''"]
  by simp

section \<open>The matcher finds exactly the matches\<close>

lemma take_run: 
  assumes "k \<le> length (takeWhile cls s)"
  shows "list_all cls (take k s) \<and> length (take k s) = k"
proof -
  have "take k (takeWhile cls s @ dropWhile cls s) = take k (takeWhile cls s)"
    using assms by (simp del: takeWhile_dropWhile_id)
  then have eq: "take k s = take k (takeWhile cls s)" by simp
  have "\<forall>x\<in>set (take k (takeWhile cls s)). cls x"
    using in_set_takeD set_takeWhileD by fastforce
  with eq have "list_all cls (take k s)" by (simp add: list_all_iff)
  moreover have "length (take k s) = k" using eq assms by simp
  ultimately show ?thesis by simp
qed



lemma first_some_map_Some: "first_some (map f xs) = Some y \<Longrightarrow> \<exists>x\<in>set xs. f x = Some y"
proof (induction xs)
  case Nil
  then show ?case by simp
next
  case (Cons a xs)
  then show ?case by (cases "f a") auto
qed






lemma rmatch_sound: "rmatch as bef s = Some ps \<Longrightarrow> conforms as bef s ps"
proof (induction as arbitrary: bef s ps)
  case Nil
  then show ?case by simp
next
  case (Cons a as)
  show ?case
  proof (cases a)
    case (Lit w)
    with Cons.prems obtain ps' where "take (length w) s = w" "ps = w # ps'"
      "rmatch as (rev w @ bef) (drop (length w) s) = Some ps'"
      by (auto split: if_splits)
    with Cons.IH Lit show ?thesis by simp
  next
    case (Alt ws)
    with Cons.prems have "first_some (map (\<lambda>w. if take (length w) s = w
          then map_option ((#) w) (rmatch as (rev w @ bef) (drop (length w) s))
          else None) ws) = Some ps"
      by simp
    from first_some_map_Some [OF this]
    obtain w ps' where "w \<in> set ws" "take (length w) s = w" "ps = w # ps'"
      "rmatch as (rev w @ bef) (drop (length w) s) = Some ps'"
      by (auto split: if_splits)
    with Cons.IH Alt show ?thesis by simp
  next
    case (Rep lo cls)
    with Cons.prems have "first_some (map (\<lambda>k. map_option ((#) (take k s))
          (rmatch as (rev (take k s) @ bef) (drop k s)))
          (rev [lo ..< Suc (length (takeWhile cls s))])) = Some ps"
      by simp
    from first_some_map_Some [OF this]
    obtain k ps' where k: "lo \<le> k" "k \<le> length (takeWhile cls s)"
      and ps: "ps = take k s # ps'"
      and r: "rmatch as (rev (take k s) @ bef) (drop k s) = Some ps'"
      by auto
    from take_run [OF k(2)] have t: "list_all cls (take k s)" "length (take k s) = k" by simp_all
    from Cons.IH [OF r] have "conforms as (rev (take k s) @ bef) (drop k s) ps'" .
    with t k ps Rep show ?thesis by simp
  next
    case WordB
    with Cons.prems Cons.IH show ?thesis by (auto split: if_splits)
  next
    case Bol
    with Cons.prems Cons.IH show ?thesis by (auto split: if_splits)
  next
    case Open
    with Cons.prems Cons.IH show ?thesis by auto
  next
    case Close
    with Cons.prems Cons.IH show ?thesis by auto
  qed
qed





lemma search_from_sound:
  "search_from as bef s = Some g
   \<Longrightarrow> \<exists>u v ps. s = u @ v \<and> conforms as (rev u @ bef) v ps \<and> g = group1 as ps"
proof (induction s arbitrary: bef)
  case Nil
  then obtain ps where r: "rmatch as bef [] = Some ps" and g: "g = group1 as ps" by auto
  from rmatch_sound [OF r] g
  have "[] = [] @ [] \<and> conforms as (rev [] @ bef) [] ps \<and> g = group1 as ps"
    by simp
  then show ?case by (intro exI)
next
  case (Cons c cs)
  show ?case
  proof (cases "rmatch as bef (c # cs)")
    case (Some ps)
    with Cons.prems have g: "g = group1 as ps" by simp
    from rmatch_sound [OF Some] g
    have "c # cs = [] @ (c # cs) \<and> conforms as (rev [] @ bef) (c # cs) ps
        \<and> g = group1 as ps"
      by simp
    then show ?thesis by (intro exI)
  next
    case None
    with Cons.prems have "search_from as (c # bef) cs = Some g" by simp
    from Cons.IH [OF this] obtain u v ps where "cs = u @ v" "conforms as (rev u @ c # bef) v ps"
      "g = group1 as ps" by blast
    then have "c # cs = (c # u) @ v \<and> conforms as (rev (c # u) @ bef) v ps \<and> g = group1 as ps"
      by simp
    then show ?thesis by (intro exI)
  qed
qed


section \<open>The shape of a version match\<close>

lemma is_digit_word: "is_digit c \<Longrightarrow> is_word c"
  by (auto simp add: is_digit_def is_word_def)

lemma dot_not_digit: "\<not> is_digit CHR ''.''"
  by (simp add: is_digit_def)

lemma split_no_sep: "d \<notin> set a \<Longrightarrow> split d a = [a]"
  by (induction a) auto

lemma split_at_sep: "d \<notin> set a \<Longrightarrow> split d (a @ d # r) = a # split d r"
  by (induction a) auto

lemma digits_no_dot: "digits a \<Longrightarrow> CHR ''.'' \<notin> set a"
  using dot_not_digit by (auto simp add: digits_def list_all_iff)

lemma dotted_pair: "digits a \<Longrightarrow> digits b \<Longrightarrow> dotted (a @ ''.'' @ b)"
  by (simp add: dotted_def split_at_sep split_no_sep digits_no_dot)

lemma dotted_triple: "digits a \<Longrightarrow> digits b \<Longrightarrow> digits c \<Longrightarrow> dotted (a @ ''.'' @ b @ ''.'' @ c)"
  by (simp add: dotted_def split_at_sep split_no_sep digits_no_dot)

lemma take_length_iff: "take (length p) s = p \<longleftrightarrow> (\<exists>r. s = p @ r)"
proof
  assume "take (length p) s = p"
  then have "s = p @ drop (length p) s" using append_take_drop_id [of "length p" s] by simp
  then show "\<exists>r. s = p @ r" ..
next
  assume "\<exists>r. s = p @ r"
  then show "take (length p) s = p" by auto
qed

lemma conforms_Cons_iff:
  "conforms (a # as) bef s ps \<longleftrightarrow>
     (\<exists>p ps' r. ps = p # ps' \<and> s = p @ r \<and> atom_ok a bef s p \<and> conforms as (rev p @ bef) r ps')"
proof (cases ps)
  case Nil
  then show ?thesis by simp
next
  case (Cons p ps')
  show ?thesis
  proof
    assume c: "conforms (a # as) bef s ps"
    with Cons have t: "take (length p) s = p" by simp
    then obtain r where r: "s = p @ r" unfolding take_length_iff ..
    with c Cons show "\<exists>p ps' r. ps = p # ps' \<and> s = p @ r \<and> atom_ok a bef s p
        \<and> conforms as (rev p @ bef) r ps'"
      by simp
  next
    assume "\<exists>p ps' r. ps = p # ps' \<and> s = p @ r \<and> atom_ok a bef s p
        \<and> conforms as (rev p @ bef) r ps'"
    then show "conforms (a # as) bef s ps" by auto
  qed
qed

lemma conforms_Open: "conforms (Open # as) bef s ps \<longleftrightarrow> (\<exists>ps'. ps = [] # ps' \<and> conforms as bef s ps')"
  by (auto simp add: conforms_Cons_iff)

lemma conforms_Close: "conforms (Close # as) bef s ps \<longleftrightarrow> (\<exists>ps'. ps = [] # ps' \<and> conforms as bef s ps')"
  by (auto simp add: conforms_Cons_iff)

lemma conforms_WordB:
  "conforms (WordB # as) bef s ps \<longleftrightarrow>
     (\<exists>ps'. ps = [] # ps' \<and> at_boundary bef s \<and> conforms as bef s ps')"
  by (auto simp add: conforms_Cons_iff)

lemma conforms_Lit:
  "conforms (Lit w # as) bef s ps \<longleftrightarrow>
     (\<exists>ps' r. ps = w # ps' \<and> s = w @ r \<and> conforms as (rev w @ bef) r ps')"
  by (auto simp add: conforms_Cons_iff)

lemma conforms_Alt:
  "conforms (Alt ws # as) bef s ps \<longleftrightarrow>
     (\<exists>w ps' r. ps = w # ps' \<and> w \<in> set ws \<and> s = w @ r \<and> conforms as (rev w @ bef) r ps')"
  by (auto simp add: conforms_Cons_iff)

lemma conforms_Rep:
  "conforms (Rep lo cls # as) bef s ps \<longleftrightarrow>
     (\<exists>p ps' r. ps = p # ps' \<and> lo \<le> length p \<and> list_all cls p \<and> s = p @ r
         \<and> conforms as (rev p @ bef) r ps')"
  by (auto simp add: conforms_Cons_iff)

lemma digits_iff: "digits p \<longleftrightarrow> 1 \<le> length p \<and> list_all is_digit p"
  by (cases p) (simp_all add: digits_def)

lemma boundary_before_digits:
  "digits a \<Longrightarrow> at_boundary bef (a @ r) \<longleftrightarrow> (bef = [] \<or> \<not> is_word (hd bef))"
  by (cases a; cases bef) (auto simp add: at_boundary_def digits_def is_digit_word)

lemma boundary_after_digits:
  "digits c \<Longrightarrow> at_boundary (rev c @ bef) r \<longleftrightarrow> (r = [] \<or> \<not> is_word (hd r))"
proof -
  assume d: "digits c"
  then have "c \<noteq> []" by (simp add: digits_def)
  then obtain x xs where x: "rev c = x # xs" by (cases "rev c") auto
  then have "x \<in> set c" by (metis list.set_intros(1) set_rev)
  with d have "is_word x" by (auto simp add: digits_def list_all_iff is_digit_word)
  with x show ?thesis by (cases r) (auto simp add: at_boundary_def)
qed

lemma conforms_pair_re:
  "conforms pair_re bef s ps \<longleftrightarrow>
     (\<exists>a b r. ps = [[], [], a, ''.'', b, [], []] \<and> s = a @ ''.'' @ b @ r
        \<and> digits a \<and> digits b
        \<and> (bef = [] \<or> \<not> is_word (hd bef)) \<and> (r = [] \<or> \<not> is_word (hd r)))"
proof
  assume "conforms pair_re bef s ps"
  then obtain a b r where ps: "ps = [[], [], a, ''.'', b, [], []]"
    and s: "s = a @ ''.'' @ b @ r" and a: "digits a" and b: "digits b"
    and b1: "at_boundary bef s" and b2: "at_boundary (rev b @ CHR ''.'' # rev a @ bef) r"
    by (auto simp add: pair_re_def conforms_Open conforms_Close conforms_WordB conforms_Lit
        conforms_Rep digits_iff)
  from b1 s a have "bef = [] \<or> \<not> is_word (hd bef)"
    by (simp add: boundary_before_digits)
  moreover from b2 b have "r = [] \<or> \<not> is_word (hd r)"
    by (simp add: boundary_after_digits)
  ultimately show "\<exists>a b r. ps = [[], [], a, ''.'', b, [], []] \<and> s = a @ ''.'' @ b @ r
        \<and> digits a \<and> digits b
        \<and> (bef = [] \<or> \<not> is_word (hd bef)) \<and> (r = [] \<or> \<not> is_word (hd r))"
    using ps s a b by blast
next
  assume "\<exists>a b r. ps = [[], [], a, ''.'', b, [], []] \<and> s = a @ ''.'' @ b @ r
        \<and> digits a \<and> digits b
        \<and> (bef = [] \<or> \<not> is_word (hd bef)) \<and> (r = [] \<or> \<not> is_word (hd r))"
  then obtain a b r where ps: "ps = [[], [], a, ''.'', b, [], []]"
    and s: "s = a @ ''.'' @ b @ r" and a: "digits a" and b: "digits b"
    and b1: "bef = [] \<or> \<not> is_word (hd bef)" and b2: "r = [] \<or> \<not> is_word (hd r)"
    by blast
  from b1 a have c1: "at_boundary bef (a @ ''.'' @ b @ r)"
    by (simp add: boundary_before_digits)
  from b2 b have c2: "at_boundary (rev b @ CHR ''.'' # rev a @ bef) r"
    by (simp add: boundary_after_digits)
  show "conforms pair_re bef s ps"
    using ps s a b c1 c2
    by (simp add: pair_re_def conforms_Open conforms_Close conforms_WordB conforms_Lit
        conforms_Rep digits_iff)
qed

lemma conforms_triple_re:
  "conforms triple_re bef s ps \<longleftrightarrow>
     (\<exists>a b c r. ps = [[], [], a, ''.'', b, ''.'', c, [], []] \<and> s = a @ ''.'' @ b @ ''.'' @ c @ r
        \<and> digits a \<and> digits b \<and> digits c
        \<and> (bef = [] \<or> \<not> is_word (hd bef)) \<and> (r = [] \<or> \<not> is_word (hd r)))"
proof
  assume "conforms triple_re bef s ps"
  then obtain a b c r where ps: "ps = [[], [], a, ''.'', b, ''.'', c, [], []]"
    and s: "s = a @ ''.'' @ b @ ''.'' @ c @ r" and a: "digits a" and b: "digits b"
    and c: "digits c"
    and b1: "at_boundary bef s"
    and b2: "at_boundary (rev c @ CHR ''.'' # rev b @ CHR ''.'' # rev a @ bef) r"
    by (auto simp add: triple_re_def conforms_Open conforms_Close conforms_WordB conforms_Lit
        conforms_Rep digits_iff)
  from b1 s a have "bef = [] \<or> \<not> is_word (hd bef)"
    by (simp add: boundary_before_digits)
  moreover from b2 c have "r = [] \<or> \<not> is_word (hd r)"
    by (simp add: boundary_after_digits)
  ultimately show "\<exists>a b c r. ps = [[], [], a, ''.'', b, ''.'', c, [], []]
        \<and> s = a @ ''.'' @ b @ ''.'' @ c @ r
        \<and> digits a \<and> digits b \<and> digits c
        \<and> (bef = [] \<or> \<not> is_word (hd bef)) \<and> (r = [] \<or> \<not> is_word (hd r))"
    using ps s a b c by blast
next
  assume "\<exists>a b c r. ps = [[], [], a, ''.'', b, ''.'', c, [], []]
        \<and> s = a @ ''.'' @ b @ ''.'' @ c @ r
        \<and> digits a \<and> digits b \<and> digits c
        \<and> (bef = [] \<or> \<not> is_word (hd bef)) \<and> (r = [] \<or> \<not> is_word (hd r))"
  then obtain a b c r where ps: "ps = [[], [], a, ''.'', b, ''.'', c, [], []]"
    and s: "s = a @ ''.'' @ b @ ''.'' @ c @ r" and a: "digits a" and b: "digits b"
    and c: "digits c"
    and b1: "bef = [] \<or> \<not> is_word (hd bef)" and b2: "r = [] \<or> \<not> is_word (hd r)"
    by blast
  from b1 a have c1: "at_boundary bef (a @ ''.'' @ b @ ''.'' @ c @ r)"
    by (simp add: boundary_before_digits)
  from b2 c have c2: "at_boundary (rev c @ CHR ''.'' # rev b @ CHR ''.'' # rev a @ bef) r"
    by (simp add: boundary_after_digits)
  show "conforms triple_re bef s ps"
    using ps s a b c c1 c2
    by (simp add: triple_re_def conforms_Open conforms_Close conforms_WordB conforms_Lit
        conforms_Rep digits_iff)
qed

lemma spaces_iff: "spaces w \<longleftrightarrow> 1 \<le> length w \<and> list_all is_space w"
  by (cases w) (simp_all add: spaces_def)

lemma conforms_marker:
  "conforms (marker_re @ fmt) bef s ps \<longleftrightarrow>
     (\<exists>m w1 w2 r ps2. ps = m # w1 # ''version'' # w2 # ps2
        \<and> s = m @ w1 @ ''version'' @ w2 @ r
        \<and> (m = ''LLVM'' \<or> m = ''clang'') \<and> spaces w1 \<and> spaces w2
        \<and> conforms fmt (rev w2 @ rev (m @ w1 @ ''version'') @ bef) r ps2)"
  by (auto simp add: marker_re_def conforms_Alt conforms_Rep conforms_Lit spaces_iff)




lemma group1_pair: "group1 pair_re [[], [], a, ''.'', b, [], []] = a @ ''.'' @ b"
  by (simp add: pair_re_def)

lemma group1_triple:
  "group1 triple_re [[], [], a, ''.'', b, ''.'', c, [], []] = a @ ''.'' @ b @ ''.'' @ c"
  by (simp add: triple_re_def)

lemma group1_marker:
  "group1 (marker_re @ fmt) (m # w1 # v # w2 # ps2) = group1 fmt ps2"
  by (simp add: marker_re_def)

lemma conforms_format_dotted:
  assumes "fmt \<in> set version_formats" and "conforms fmt bef s ps"
  shows "\<exists>r. s = group1 fmt ps @ r \<and> dotted (group1 fmt ps)
           \<and> (bef = [] \<or> \<not> is_word (hd bef)) \<and> (r = [] \<or> \<not> is_word (hd r))"
proof -
  from assms(1) have "fmt = triple_re \<or> fmt = pair_re" by (simp add: version_formats_def)
  then show ?thesis
  proof
    assume f: "fmt = triple_re"
    with assms(2) have "conforms triple_re bef s ps" by simp
    then obtain a b c r where "ps = [[], [], a, ''.'', b, ''.'', c, [], []]"
      "s = a @ ''.'' @ b @ ''.'' @ c @ r" "digits a" "digits b" "digits c"
      "bef = [] \<or> \<not> is_word (hd bef)" "r = [] \<or> \<not> is_word (hd r)"
      unfolding conforms_triple_re by blast
    with f have "s = group1 fmt ps @ r \<and> dotted (group1 fmt ps)
           \<and> (bef = [] \<or> \<not> is_word (hd bef)) \<and> (r = [] \<or> \<not> is_word (hd r))"
      using dotted_triple [of a b c] by (simp add: group1_triple)
    then show ?thesis ..
  next
    assume f: "fmt = pair_re"
    with assms(2) have "conforms pair_re bef s ps" by simp
    then obtain a b r where "ps = [[], [], a, ''.'', b, [], []]"
      "s = a @ ''.'' @ b @ r" "digits a" "digits b"
      "bef = [] \<or> \<not> is_word (hd bef)" "r = [] \<or> \<not> is_word (hd r)"
      unfolding conforms_pair_re by blast
    with f have "s = group1 fmt ps @ r \<and> dotted (group1 fmt ps)
           \<and> (bef = [] \<or> \<not> is_word (hd bef)) \<and> (r = [] \<or> \<not> is_word (hd r))"
      using dotted_pair [of a b] by (simp add: group1_pair)
    then show ?thesis ..
  qed
qed


lemma re_search_dotted:
  assumes "fmt \<in> set version_formats" and "re_search fmt text = Some g"
  shows "dotted_in text g"
proof -
  from assms(2) have "search_from fmt [] text = Some g" by (simp add: re_search_def)
  from search_from_sound [OF this] obtain u v ps where t: "text = u @ v"
    and c: "conforms fmt (rev u) v ps" and g: "g = group1 fmt ps" by auto
  from conforms_format_dotted [OF assms(1) c] g obtain r where v: "v = g @ r"
    and d: "dotted g" and b1: "rev u = [] \<or> \<not> is_word (hd (rev u))"
    and b2: "r = [] \<or> \<not> is_word (hd r)" by auto
  from b1 have "u = [] \<or> \<not> is_word (last u)" by (cases "u = []") (simp_all add: hd_rev)
  with t v b2 have "text = u @ g @ r \<and> (u = [] \<or> \<not> is_word (last u))
      \<and> (r = [] \<or> \<not> is_word (hd r))" by simp
  then have "\<exists>u v. text = u @ g @ v \<and> (u = [] \<or> \<not> is_word (last u))
      \<and> (v = [] \<or> \<not> is_word (hd v))" by (intro exI)
  with d show ?thesis by (simp add: dotted_in_def)
qed


lemma re_search_marked:
  assumes "fmt \<in> set version_formats" and "re_search (marker_re @ fmt) text = Some g"
  shows "marked_in text g"
proof -
  from assms(2) have "search_from (marker_re @ fmt) [] text = Some g"
    by (simp add: re_search_def)
  from search_from_sound [OF this] obtain u s ps where t: "text = u @ s"
    and c: "conforms (marker_re @ fmt) (rev u) s ps" and g: "g = group1 (marker_re @ fmt) ps"
    by auto
  from c obtain m w1 w2 r ps2 where ps: "ps = m # w1 # ''version'' # w2 # ps2"
    and s: "s = m @ w1 @ ''version'' @ w2 @ r"
    and m: "m = ''LLVM'' \<or> m = ''clang''" and w: "spaces w1" "spaces w2"
    and c2: "conforms fmt (rev w2 @ rev (m @ w1 @ ''version'') @ rev u) r ps2"
    unfolding conforms_marker by blast
  from g ps have g2: "g = group1 fmt ps2" by (simp add: group1_marker)
  from conforms_format_dotted [OF assms(1) c2] g2 obtain v where r: "r = g @ v"
    and d: "dotted g" and b: "v = [] \<or> \<not> is_word (hd v)" by auto
  from t s r m w b have "text = u @ m @ w1 @ ''version'' @ w2 @ g @ v
      \<and> (m = ''LLVM'' \<or> m = ''clang'') \<and> spaces w1 \<and> spaces w2
      \<and> (v = [] \<or> \<not> is_word (hd v))" by simp
  then have "\<exists>u m w1 w2 v. text = u @ m @ w1 @ ''version'' @ w2 @ g @ v
      \<and> (m = ''LLVM'' \<or> m = ''clang'') \<and> spaces w1 \<and> spaces w2
      \<and> (v = [] \<or> \<not> is_word (hd v))" by (intro exI)
  with d show ?thesis by (simp add: marked_in_def)
qed


section \<open>The searches of \<open>getverstr\<close>\<close>

lemma search_formats_Some:
  "search_formats pre fmts text = Some g \<Longrightarrow> \<exists>fmt\<in>set fmts. re_search (pre @ fmt) text = Some g"
  by (induction fmts) (auto split: option.splits)


lemma marked_search_sound:
  "search_formats marker_re version_formats text = Some g \<Longrightarrow> marked_in text g"
  using search_formats_Some re_search_marked by blast


lemma dotted_search_sound:
  "search_formats [] version_formats text = Some g \<Longrightarrow> dotted_in text g"
  using search_formats_Some [of "[]" version_formats "text" g] re_search_dotted [of _ "text" g]
  by auto


lemma map_int_digits: "list_all digits ps \<Longrightarrow> map_int ps = Inr (map digits_value ps)"
  by (induction ps) (auto simp add: py_int_def digits_def)

lemma dotted_not_Nil: "dotted g \<Longrightarrow> g \<noteq> []"
  by (auto simp add: dotted_def)

lemma version_tuple_dotted:
  "dotted g \<Longrightarrow> version_tuple (Some g) = Inr (Some (map digits_value (split CHR ''.'' g)))"
  by (simp add: version_tuple_def dotted_not_Nil map_int_digits dotted_def Let_def)

section \<open>The version\<close>

lemma search_texts_Some:
  "search_texts fmts texts = Some g \<Longrightarrow> \<exists>t\<in>set texts. search_formats [] fmts t = Some g"
  by (induction texts) (auto split: option.splits)

lemma getverstr_dotted:
  assumes "fst (getverstr Popen compiler) = Some g"
  shows "dotted g"
proof (cases "Popen [compiler, ''--version'']")
  case (Inl e)
  with assms show ?thesis by (simp add: getverstr_def)
next
  case (Inr full_lines)
  show ?thesis
  proof (cases "search_formats marker_re version_formats (join '' '' full_lines)")
    case (Some m)
    with Inr assms have "m = g" by (simp add: getverstr_def)
    with Some marked_search_sound [of "join '' '' full_lines" g] show ?thesis
      by (simp add: marked_in_def)
  next
    case None
    show ?thesis
    proof (cases "Popen [compiler, ''-dumpversion'']")
      case (Inl e)
      with Inr None assms show ?thesis by (simp add: getverstr_def Let_def)
    next
      case (Inr dump_lines)
      with \<open>Popen [compiler, ''--version''] = Inr full_lines\<close> None assms
      have "search_texts version_formats
              [join '' '' dump_lines, re_sub_empty paren_re [] (join '' '' full_lines),
               join '' '' full_lines] = Some g"
        by (simp add: getverstr_def Let_def)
      from search_texts_Some [OF this] obtain t where "search_formats [] version_formats t = Some g"
        by blast
      from dotted_search_sound [OF this] show ?thesis by (simp add: dotted_in_def)
    qed
  qed
qed

text \<open>
  The conversion to integers is outside the \<open>try\<close>, but it never raises: every string
  \<open>getverstr\<close> returns is a dotted version.
\<close>

lemma CompilerVersion_never_raises:
  "\<exists>r. fst (CompilerVersion Popen compiler) = Inr r"
proof (cases "fst (getverstr Popen compiler)")
  case None
  then show ?thesis by (simp add: fst_CompilerVersion version_tuple_def)
next
  case (Some g)
  from getverstr_dotted [OF this] have "dotted g" .
  from version_tuple_dotted [OF this] Some show ?thesis by (simp add: fst_CompilerVersion)
qed



















end
